theory Spec2Isabelle
  imports Main "HOL-Library.Multiset"
begin

section \<open>The store: users, game sessions and the leaderboards table\<close>

text \<open>
  The three tables of the Prisma migrations. Only the columns that the leaderboard
  service reads or writes are kept: the serial primary keys and the defaulted timestamps
  (\<open>join_date\<close>, \<open>timestamp\<close>) are never read by the service. The field prefixes are
  the table aliases of the raw SQL (\<open>u.id\<close>, \<open>l.total_score\<close>). Identifiers and
  scores are JavaScript integers, hence \<open>int\<close>; \<open>rank\<close> is a nullable column.
\<close>

record user_row =
  u_id :: int
  u_username :: string

record game_session =
  gs_user_id :: int
  gs_score :: int
  gs_game_mode :: string

record leaderboards_row =
  l_user_id :: int
  l_total_score :: int
  l_rank :: "nat option"

record database =
  users :: "user_row list"
  game_sessions :: "game_session list"
  leaderboards :: "leaderboards_row list"

text \<open>
  \<open>user_id\<close>, \<open>score\<close> and \<open>total_score\<close> are \<open>INTEGER\<close> columns: PostgreSQL
  rejects a value outside the 32-bit range, it does not wrap. \<open>game_mode\<close> is a
  \<open>VARCHAR(50)\<close>.
\<close>

definition INT_MAX :: int where
  "INT_MAX = 2147483647"

definition INT_MIN :: int where
  "INT_MIN = - 2147483648"

definition fits_integer :: "int \<Rightarrow> bool" where
  "fits_integer x \<longleftrightarrow> INT_MIN \<le> x \<and> x \<le> INT_MAX"

definition fits_game_sessions :: "game_session \<Rightarrow> bool" where
  "fits_game_sessions g \<longleftrightarrow>
     fits_integer (gs_user_id g) \<and> fits_integer (gs_score g) \<and> length (gs_game_mode g) \<le> 50"

section \<open>The environment: what may fail, and the process configuration\<close>

text \<open>
  Every store, cache and queue access is an I/O operation that may reject. One run of a
  service function is given the outcome of each of its accesses; the booleans say which
  of them reject. \<open>RANK_RECALCULATION_ENABLED\<close> is the value of the environment variable
  of that name (\<open>None\<close> when it is not set).
\<close>

record env =
  db_fails :: bool
  redis_get_fails :: bool
  redis_setex_fails :: bool
  del_top_fails :: bool
  del_rank_fails :: bool
  del_score_fails :: bool
  queue_add_fails :: bool
  RANK_RECALCULATION_ENABLED :: "string option"

datatype app_error =
  AppError string nat
  | StoreError
  | TypeError string

section \<open>The cache and the job queue\<close>

record player_row =
  userId :: int
  username :: string
  totalScore :: int
  rank :: nat

record rank_result = player_row +
  totalPlayers :: nat

text \<open>
  The Redis keys of \<open>CACHE_KEYS\<close>: the single key \<open>leaderboard:top10\<close>, and one key
  per user id for the rank and for the score. A value is the JSON text of what the
  service stored; \<open>JSON.parse\<close> of \<open>JSON.stringify\<close> gives the stored object back, so
  the cache holds the objects themselves. Nothing ever writes a \<open>USER_SCORE\<close> key; it
  is only deleted.
\<close>

record cache =
  TOP_LEADERBOARD :: "player_row list option"
  USER_RANK :: "int \<Rightarrow> rank_result option"
  USER_SCORE :: "int \<Rightarrow> string option"

record job_data =
  jd_userId :: "int option"
  jd_fullRecalculation :: "bool option"
  jd_incremental :: "bool option"

record system =
  store :: database
  redis :: cache
  rank_recalculation_queue :: "job_data list"

section \<open>Cache invalidation (config/redis.js)\<close>

text \<open>Both functions catch and log a rejected \<open>del\<close>; neither ever rejects itself.\<close>

definition invalidateLeaderboardCache :: "env \<Rightarrow> cache \<Rightarrow> cache" where
  "invalidateLeaderboardCache e c =
     (if del_top_fails e then c else c\<lparr>TOP_LEADERBOARD := None\<rparr>)"

definition invalidateUserCache :: "env \<Rightarrow> int \<Rightarrow> cache \<Rightarrow> cache" where
  "invalidateUserCache e uid c =
     (if del_rank_fails e then c
      else let c1 = c\<lparr>USER_RANK := (USER_RANK c)(uid := None)\<rparr>
           in if del_score_fails e then c1
              else c1\<lparr>USER_SCORE := (USER_SCORE c1)(uid := None)\<rparr>)"

section \<open>The queue (config/queues.js)\<close>

text \<open>\<open>addRankRecalculationJob\<close> logs a rejected \<open>add\<close> and throws it again.\<close>

definition addRankRecalculationJob ::
  "env \<Rightarrow> job_data \<Rightarrow> job_data list \<Rightarrow> app_error + job_data list" where
  "addRankRecalculationJob e d q =
     (if queue_add_fails e then Inl StoreError else Inr (q @ [d]))"

section \<open>Score submission (services/leaderboardService.js)\<close>

text \<open>
  The text of an integer inside a template string, as in \<open>user_${userId}\<close>: the
  decimal digits, most significant first, after a minus sign for a negative number.
\<close>

definition digit_char :: "nat \<Rightarrow> char" where
  "digit_char d = ''0123456789'' ! d"

function decimal_digits :: "nat \<Rightarrow> string \<Rightarrow> string" where
  "decimal_digits n acc =
     (let acc' = digit_char (n mod 10) # acc
      in if n div 10 = 0 then acc' else decimal_digits (n div 10) acc')"
  by pat_completeness auto
termination
  by (relation "measure fst") auto

declare decimal_digits.simps [simp del]

definition number_text :: "int \<Rightarrow> string" where
  "number_text i =
     (if i < 0 then CHR ''-'' # decimal_digits (nat (- i)) []
      else decimal_digits (nat i) [])"

text \<open>\<open>tx.user.upsert\<close> with an empty update: creates the user when the id is new.\<close>

definition user_upsert :: "int \<Rightarrow> user_row list \<Rightarrow> user_row list" where
  "user_upsert uid us =
     (case find (\<lambda>u. u_id u = uid) us of
        Some u \<Rightarrow> us
      | None \<Rightarrow> us @ [\<lparr>u_id = uid, u_username = ''user_'' @ number_text uid\<rparr>])"

text \<open>
  \<open>tx.gameSession.aggregate\<close> with \<open>_sum: {score: true}\<close>: the sum of the matching
  rows, and \<open>null\<close> when no row matches.
\<close>

definition sum_score :: "int \<Rightarrow> game_session list \<Rightarrow> int option" where
  "sum_score uid gs =
     (let rows = filter (\<lambda>g. gs_user_id g = uid) gs
      in if rows = [] then None else Some (sum_list (map gs_score rows)))"

text \<open>\<open>x || 0\<close> on a number or \<open>null\<close>: \<open>null\<close> and \<open>0\<close> are falsy.\<close>

definition or_zero :: "int option \<Rightarrow> int" where
  "or_zero x = (case x of None \<Rightarrow> 0 | Some v \<Rightarrow> if v = 0 then 0 else v)"

text \<open>
  \<open>tx.leaderboards.upsert\<close>: sets \<open>totalScore\<close> on the row of the user, or creates the
  row (with a null rank). Returns the row as written.
\<close>

definition leaderboards_upsert ::
  "int \<Rightarrow> int \<Rightarrow> leaderboards_row list \<Rightarrow> leaderboards_row \<times> leaderboards_row list" where
  "leaderboards_upsert uid t ls =
     (case find (\<lambda>l. l_user_id l = uid) ls of
        Some l \<Rightarrow>
          (l\<lparr>l_total_score := t\<rparr>,
           map (\<lambda>r. if l_user_id r = uid then r\<lparr>l_total_score := t\<rparr> else r) ls)
      | None \<Rightarrow>
          (let l = \<lparr>l_user_id = uid, l_total_score = t, l_rank = None\<rparr>
           in (l, ls @ [l])))"

record tx_result =
  gameSession :: game_session
  leaderboardEntry :: leaderboards_row
  tx_totalScore :: int

text \<open>
  The body of the transaction, run at \<open>ReadCommitted\<close> with a timeout of 30 seconds.
  It rejects, and the store keeps its old state, when the store is unavailable, times out
  or refuses a statement (\<open>db_fails\<close>), when the new session does not fit its columns,
  and when the new total does not fit the \<open>INTEGER\<close> column, which sums of accepted
  scores can reach. Transactions run one after another here: the model has no
  interleaving.
\<close>

definition submit_transaction ::
  "env \<Rightarrow> database \<Rightarrow> int \<Rightarrow> int \<Rightarrow> string \<Rightarrow> app_error + (tx_result \<times> database)" where
  "submit_transaction e d uid sc gameMode =
     (if db_fails e then Inl StoreError
      else
        let us = user_upsert uid (users d);
            g = \<lparr>gs_user_id = uid, gs_score = sc, gs_game_mode = gameMode\<rparr>;
            gs = game_sessions d @ [g];
            total = or_zero (sum_score uid gs)
        in if \<not> fits_game_sessions g \<or> \<not> fits_integer total then Inl StoreError
           else
             let (entry, ls) = leaderboards_upsert uid total (leaderboards d)
             in Inr (\<lparr>gameSession = g, leaderboardEntry = entry, tx_totalScore = total\<rparr>,
                     \<lparr>users = us, game_sessions = gs, leaderboards = ls\<rparr>))"

text \<open>
  Reading a property of the transaction's result object by name. A name the object does
  not have reads as \<open>undefined\<close>, which is \<open>None\<close>.
\<close>

datatype result_value =
  SessionValue game_session
  | EntryValue leaderboards_row
  | NumberValue int

definition get_property :: "tx_result \<Rightarrow> string \<Rightarrow> result_value option" where
  "get_property r name =
     (if name = ''gameSession'' then Some (SessionValue (gameSession r))
      else if name = ''leaderboardEntry'' then Some (EntryValue (leaderboardEntry r))
      else if name = ''totalScore'' then Some (NumberValue (tx_totalScore r))
      else None)"

text \<open>
  \<open>submitScore(userId, score, gameMode = 'solo')\<close>. After the commit the two
  invalidations run under \<open>Promise.allSettled\<close>; the enqueue is awaited inside the
  \<open>try\<close>, so its rejection reaches the \<open>catch\<close>, which throws the 500 error. The value
  returned is the property \<open>leaderboardsEntry\<close> of the transaction's result.
\<close>

definition submitScore ::
  "env \<Rightarrow> system \<Rightarrow> int \<Rightarrow> int \<Rightarrow> string option
     \<Rightarrow> (app_error + result_value option) \<times> system" where
  "submitScore e s uid sc gameMode =
     (let gm = (case gameMode of None \<Rightarrow> ''solo'' | Some m \<Rightarrow> m)
      in case submit_transaction e (store s) uid sc gm of
           Inl err \<Rightarrow> (Inl (AppError ''Failed to submit score. Please try again.'' 500), s)
         | Inr (result, d) \<Rightarrow>
             let c = invalidateUserCache e uid (invalidateLeaderboardCache e (redis s));
                 s1 = s\<lparr>store := d, redis := c\<rparr>
             in if RANK_RECALCULATION_ENABLED e = Some ''true''
                then (case addRankRecalculationJob e
                             \<lparr>jd_userId = Some uid, jd_fullRecalculation = None,
                              jd_incremental = Some True\<rparr>
                             (rank_recalculation_queue s1) of
                        Inl err \<Rightarrow>
                          (Inl (AppError ''Failed to submit score. Please try again.'' 500), s1)
                      | Inr q \<Rightarrow>
                          (Inr (get_property result ''leaderboardsEntry''),
                           s1\<lparr>rank_recalculation_queue := q\<rparr>))
                else (Inr (get_property result ''leaderboardsEntry''), s1))"

text \<open>The sum of the scores of all sessions of a player, as the claim reads it.\<close>

definition session_total :: "int \<Rightarrow> database \<Rightarrow> int" where
  "session_total uid d =
     sum_list (map gs_score (filter (\<lambda>g. gs_user_id g = uid) (game_sessions d)))"

definition aggregate_of :: "int \<Rightarrow> database \<Rightarrow> leaderboards_row option" where
  "aggregate_of uid d = find (\<lambda>l. l_user_id l = uid) (leaderboards d)"

section \<open>Ranking queries (services/leaderboardService.js)\<close>

text \<open>
  \<open>RANK() OVER (ORDER BY total_score DESC)\<close>: the rows are put in descending order of
  their score and numbered from 1; a row whose score equals that of the row before it is
  a peer of that row and takes its rank, any other row takes its own position. The
  walk carries the position and the score and rank of the row before. SQL leaves the
  order among equal scores open; the sort used here keeps the table's order.
\<close>

fun rank_walk :: "('a \<Rightarrow> int) \<Rightarrow> nat \<Rightarrow> (int \<times> nat) option \<Rightarrow> 'a list \<Rightarrow> ('a \<times> nat) list" where
  "rank_walk f pos prev [] = []"
| "rank_walk f pos prev (x # xs) =
     (let r = (case prev of
                 None \<Rightarrow> pos
               | Some (s, r') \<Rightarrow> if s = f x then r' else pos)
      in (x, r) # rank_walk f (Suc pos) (Some (f x, r)) xs)"

definition order_by_desc :: "('a \<Rightarrow> int) \<Rightarrow> 'a list \<Rightarrow> 'a list" where
  "order_by_desc f xs = sort_key (\<lambda>x. - f x) xs"

definition rank_over :: "('a \<Rightarrow> int) \<Rightarrow> 'a list \<Rightarrow> ('a \<times> nat) list" where
  "rank_over f xs = rank_walk f 1 None (order_by_desc f xs)"

text \<open>\<open>FROM leaderboards l INNER JOIN users u ON l.user_id = u.id\<close>.\<close>

definition leaderboards_join_users :: "database \<Rightarrow> (leaderboards_row \<times> user_row) list" where
  "leaderboards_join_users d =
     concat (map (\<lambda>l. map (\<lambda>u. (l, u)) (filter (\<lambda>u. l_user_id l = u_id u) (users d)))
                 (leaderboards d))"

text \<open>
  The raw query of \<open>getTopPlayers\<close>: the window function ranks all joined rows, then
  \<open>ORDER BY l.total_score DESC LIMIT ${limit}\<close>. PostgreSQL rejects a negative limit.
\<close>

definition top_players_query :: "env \<Rightarrow> database \<Rightarrow> int \<Rightarrow> app_error + player_row list" where
  "top_players_query e d limit =
     (if db_fails e \<or> limit < 0 then Inl StoreError
      else
        let ranked = rank_over (\<lambda>(l, u). l_total_score l) (leaderboards_join_users d);
            ordered = order_by_desc (\<lambda>((l, u), r). l_total_score l) ranked
        in Inr (map (\<lambda>((l, u), r).
                       \<lparr>userId = l_user_id l, username = u_username u,
                        totalScore = l_total_score l, rank = r\<rparr>)
                    (take (nat limit) ordered)))"

text \<open>
  \<open>getTopPlayers(limit = 10)\<close>. The cache key is the constant
  \<open>CACHE_KEYS.TOP_LEADERBOARD\<close>, whatever the limit. A cached JSON text is never the
  empty string, so \<open>if (cached)\<close> holds exactly when the key is present. Every failure
  is thrown again as the 500 error.
\<close>

definition getTopPlayers ::
  "env \<Rightarrow> system \<Rightarrow> int option \<Rightarrow> (app_error + player_row list) \<times> system" where
  "getTopPlayers e s limit_arg =
     (let limit = (case limit_arg of None \<Rightarrow> 10 | Some n \<Rightarrow> n);
          failed = Inl (AppError ''Failed to retrieve leaderboards'' 500)
      in if redis_get_fails e then (failed, s)
         else case TOP_LEADERBOARD (redis s) of
                Some cached \<Rightarrow> (Inr cached, s)
              | None \<Rightarrow>
                  (case top_players_query e (store s) limit of
                     Inl err \<Rightarrow> (failed, s)
                   | Inr formattedPlayers \<Rightarrow>
                       if redis_setex_fails e then (failed, s)
                       else (Inr formattedPlayers,
                             s\<lparr>redis := (redis s)\<lparr>TOP_LEADERBOARD := Some formattedPlayers\<rparr>\<rparr>)))"

text \<open>
  The raw query of \<open>getPlayerRank\<close>: the joined rows of the user, at most one
  (\<open>LIMIT 1\<close>), each with \<open>COUNT(*) + 1\<close> over the rows of strictly greater total score
  and with the number of rows of the table. The user id is compared with an \<open>INTEGER\<close>
  column: PostgreSQL rejects a parameter outside the 32-bit range, and the route's
  validation lets any run of digits through.
\<close>

definition count_greater :: "int \<Rightarrow> leaderboards_row list \<Rightarrow> nat" where
  "count_greater t ls = length (filter (\<lambda>l2. l_total_score l2 > t) ls)"

definition player_rank_query :: "env \<Rightarrow> database \<Rightarrow> int \<Rightarrow> app_error + rank_result list" where
  "player_rank_query e d uid =
     (if db_fails e \<or> \<not> fits_integer uid then Inl StoreError
      else Inr (map (\<lambda>(l, u).
                       \<lparr>userId = l_user_id l, username = u_username u,
                        totalScore = l_total_score l,
                        rank = count_greater (l_total_score l) (leaderboards d) + 1,
                        totalPlayers = length (leaderboards d)\<rparr>)
                    (take 1 (filter (\<lambda>(l, u). l_user_id l = uid) (leaderboards_join_users d)))))"

text \<open>
  \<open>getPlayerRank(userId)\<close>. The 404 error is an \<open>AppError\<close> and passes the \<open>catch\<close>
  as it is; any other failure becomes the 500 error. The cache is written after the
  lookup has given a row, and nowhere else.
\<close>

definition not_found :: app_error where
  "not_found = AppError ''Player not found in leaderboards'' 404"

definition getPlayerRank ::
  "env \<Rightarrow> system \<Rightarrow> int \<Rightarrow> (app_error + rank_result) \<times> system" where
  "getPlayerRank e s uid =
     (let failed = Inl (AppError ''Failed to retrieve player rank'' 500)
      in if redis_get_fails e then (failed, s)
         else case USER_RANK (redis s) uid of
                Some cached \<Rightarrow> (Inr cached, s)
              | None \<Rightarrow>
                  (case player_rank_query e (store s) uid of
                     Inl err \<Rightarrow> (failed, s)
                   | Inr [] \<Rightarrow> (Inl not_found, s)
                   | Inr (result # rest) \<Rightarrow>
                       if redis_setex_fails e then (failed, s)
                       else (Inr result,
                             s\<lparr>redis := (redis s)\<lparr>USER_RANK := (USER_RANK (redis s))(uid \<mapsto> result)\<rparr>\<rparr>)))"

section \<open>Rank recalculation\<close>

text \<open>
  The \<open>UPDATE ... FROM (SELECT user_id, RANK() OVER ...) AS ranked WHERE
  leaderboards.user_id = ranked.user_id\<close> of \<open>recalculateAllRanks\<close>: every row takes
  the rank of the ranked row of its user id.
\<close>

definition update_ranks :: "leaderboards_row list \<Rightarrow> leaderboards_row list" where
  "update_ranks ls =
     (let ranked = map (\<lambda>(l, r). (l_user_id l, r)) (rank_over l_total_score ls)
      in map (\<lambda>l. case map_of ranked (l_user_id l) of
                     Some r \<Rightarrow> l\<lparr>l_rank := Some r\<rparr>
                   | None \<Rightarrow> l) ls)"

text \<open>
  \<open>recalculateAllRanks(batchSize = 1000)\<close>; the batch size is not used. A rejected
  update is logged and thrown again as it is.
\<close>

definition recalculateAllRanks :: "env \<Rightarrow> system \<Rightarrow> (app_error + bool) \<times> system" where
  "recalculateAllRanks e s =
     (if db_fails e then (Inl StoreError, s)
      else
        let d = (store s)\<lparr>leaderboards := update_ranks (leaderboards (store s))\<rparr>
        in (Inr True, s\<lparr>store := d, redis := invalidateLeaderboardCache e (redis s)\<rparr>))"

text \<open>
  The processor of \<open>rankRecalculationWorker\<close> (jobs/workers.js). A property of the job
  data that is absent is falsy, and so is the user id 0. The incremental branch writes a
  log line and nothing else.
\<close>

definition truthy_flag :: "bool option \<Rightarrow> bool" where
  "truthy_flag b = (b = Some True)"

definition truthy_number :: "int option \<Rightarrow> bool" where
  "truthy_number n = (case n of None \<Rightarrow> False | Some v \<Rightarrow> v \<noteq> 0)"

definition rankRecalculationWorker :: "env \<Rightarrow> system \<Rightarrow> job_data \<Rightarrow> (app_error + bool) \<times> system" where
  "rankRecalculationWorker e s job =
     (if truthy_flag (jd_fullRecalculation job) then
        (case recalculateAllRanks e s of
           (Inl err, s') \<Rightarrow> (Inl err, s')
         | (Inr ok, s') \<Rightarrow> (Inr True, s'))
      else if truthy_flag (jd_incremental job) \<and> truthy_number (jd_userId job) then
        (Inr True, s)
      else (Inr True, s))"

section \<open>The submit handler (controllers/leaderboardController.js)\<close>

text \<open>
  The handler reads \<open>userId\<close> and \<open>totalScore\<close> off what the service returned. Reading
  a property of \<open>undefined\<close> throws a \<open>TypeError\<close>; a property an object does not have
  reads as \<open>undefined\<close>. \<open>submittedAt\<close> is the clock at the time of the response.
\<close>

record submit_response =
  data_userId :: "int option"
  data_totalScore :: "int option"
  data_submittedAt :: string

definition controller_submitScore ::
  "env \<Rightarrow> string \<Rightarrow> system \<Rightarrow> int \<Rightarrow> int \<Rightarrow> string option
     \<Rightarrow> (app_error + submit_response) \<times> system" where
  "controller_submitScore e now s user_id score game_mode =
     (case submitScore e s user_id score game_mode of
        (Inl err, s') \<Rightarrow> (Inl err, s')
      | (Inr None, s') \<Rightarrow>
          (Inl (TypeError ''Cannot read properties of undefined (reading 'userId')''), s')
      | (Inr (Some (EntryValue l)), s') \<Rightarrow>
          (Inr \<lparr>data_userId = Some (l_user_id l), data_totalScore = Some (l_total_score l),
                data_submittedAt = now\<rparr>, s')
      | (Inr (Some (SessionValue g)), s') \<Rightarrow>
          (Inr \<lparr>data_userId = Some (gs_user_id g), data_totalScore = None,
                data_submittedAt = now\<rparr>, s')
      | (Inr (Some (NumberValue n)), s') \<Rightarrow>
          (Inr \<lparr>data_userId = None, data_totalScore = None, data_submittedAt = now\<rparr>, s'))"

section \<open>Constraints of the schema and the cache invariant\<close>

text \<open>
  The unique index \<open>leaderboards_user_id_key\<close> and the foreign key
  \<open>leaderboards_user_id_fkey\<close> of the migration.
\<close>

definition leaderboards_user_id_key :: "database \<Rightarrow> bool" where
  "leaderboards_user_id_key d \<longleftrightarrow> distinct (map l_user_id (leaderboards d))"

definition leaderboards_user_id_fkey :: "database \<Rightarrow> bool" where
  "leaderboards_user_id_fkey d \<longleftrightarrow>
     list_all (\<lambda>l. list_ex (\<lambda>u. u_id u = l_user_id l) (users d)) (leaderboards d)"

text \<open>
  The invariant of the rank cache: a result cached under a user id is a result of that
  user, the user has an aggregate row, and the cached rank lies between 1 and the cached
  number of players, which is at most the number of rows now. The service never deletes
  a row of the table, and it caches a result only after the query gave the row. The
  cached total and rank themselves may be out of date.
\<close>

definition cached_rank_ok :: "database \<Rightarrow> int \<Rightarrow> rank_result \<Rightarrow> bool" where
  "cached_rank_ok d uid r \<longleftrightarrow>
     userId r = uid \<and> aggregate_of uid d \<noteq> None
     \<and> 1 \<le> rank r \<and> rank r \<le> totalPlayers r
     \<and> totalPlayers r \<le> length (leaderboards d)"

definition cache_sound :: "system \<Rightarrow> bool" where
  "cache_sound s \<longleftrightarrow>
     (\<forall>uid r. USER_RANK (redis s) uid = Some r \<longrightarrow> cached_rank_ok (store s) uid r)"

text \<open>Every aggregate row holds the sum of the sessions of its user.\<close>

definition totals_consistent :: "database \<Rightarrow> bool" where
  "totals_consistent d \<longleftrightarrow>
     list_all (\<lambda>l. l_total_score l = session_total (l_user_id l) d) (leaderboards d)"

definition no_failure :: "env \<Rightarrow> bool" where
  "no_failure e \<longleftrightarrow> \<not> db_fails e \<and> \<not> redis_get_fails e \<and> \<not> redis_setex_fails e"

definition user_of :: "int \<Rightarrow> database \<Rightarrow> user_row option" where
  "user_of uid d = find (\<lambda>u. u_id u = uid) (users d)"

definition count_equal :: "int \<Rightarrow> leaderboards_row list \<Rightarrow> nat" where
  "count_equal t ls = length (filter (\<lambda>l2. l_total_score l2 = t) ls)"

section \<open>Concrete environments and states\<close>

text \<open>
  An environment in which nothing fails and the recalculation queue is enabled, and one
  in which the queue rejects the \<open>add\<close>.
\<close>

definition env_ok :: env where
  "env_ok = \<lparr>db_fails = False, redis_get_fails = False, redis_setex_fails = False,
             del_top_fails = False, del_rank_fails = False, del_score_fails = False,
             queue_add_fails = False, RANK_RECALCULATION_ENABLED = Some ''true''\<rparr>"

definition env_queue_down :: env where
  "env_queue_down = env_ok\<lparr>queue_add_fails := True\<rparr>"

definition empty_cache :: cache where
  "empty_cache = \<lparr>TOP_LEADERBOARD = None, USER_RANK = (\<lambda>uid. None),
                  USER_SCORE = (\<lambda>uid. None)\<rparr>"

text \<open>Two players with totals 100 and 200, not ranked yet, and nothing cached.\<close>

definition seeded :: system where
  "seeded =
     \<lparr>store =
        \<lparr>users = [\<lparr>u_id = 1, u_username = ''user_1''\<rparr>, \<lparr>u_id = 2, u_username = ''user_2''\<rparr>],
         game_sessions =
           [\<lparr>gs_user_id = 1, gs_score = 100, gs_game_mode = ''solo''\<rparr>,
            \<lparr>gs_user_id = 2, gs_score = 200, gs_game_mode = ''solo''\<rparr>],
         leaderboards =
           [\<lparr>l_user_id = 1, l_total_score = 100, l_rank = None\<rparr>,
            \<lparr>l_user_id = 2, l_total_score = 200, l_rank = None\<rparr>]\<rparr>,
      redis = empty_cache,
      rank_recalculation_queue = []\<rparr>"

text \<open>
  The seeded state after player 1 has read their rank, which is cached, and a new player 3
  has then submitted 150, which deletes the cached rank of player 3 only.
\<close>

definition stale_rank_state :: system where
  "stale_rank_state =
     snd (submitScore env_ok (snd (getPlayerRank env_ok seeded 1)) 3 150 None)"

text \<open>Three players, two of them tied at the top.\<close>

definition tied :: system where
  "tied =
     \<lparr>store =
        \<lparr>users = [\<lparr>u_id = 1, u_username = ''user_1''\<rparr>, \<lparr>u_id = 2, u_username = ''user_2''\<rparr>,
                  \<lparr>u_id = 3, u_username = ''user_3''\<rparr>],
         game_sessions =
           [\<lparr>gs_user_id = 1, gs_score = 200, gs_game_mode = ''solo''\<rparr>,
            \<lparr>gs_user_id = 2, gs_score = 200, gs_game_mode = ''solo''\<rparr>,
            \<lparr>gs_user_id = 3, gs_score = 100, gs_game_mode = ''solo''\<rparr>],
         leaderboards =
           [\<lparr>l_user_id = 1, l_total_score = 200, l_rank = None\<rparr>,
            \<lparr>l_user_id = 2, l_total_score = 200, l_rank = None\<rparr>,
            \<lparr>l_user_id = 3, l_total_score = 100, l_rank = None\<rparr>]\<rparr>,
      redis = empty_cache,
      rank_recalculation_queue = []\<rparr>"

section \<open>The total of a player after a submission\<close>

lemma or_zero_sum_score:
  "or_zero (sum_score uid gs) = sum_list (map gs_score (filter (\<lambda>g. gs_user_id g = uid) gs))"
  by (simp add: or_zero_def sum_score_def Let_def)

lemma find_leaderboards_set_total:
  "find (\<lambda>l. l_user_id l = uid)
        (map (\<lambda>r. if l_user_id r = uid then r\<lparr>l_total_score := t\<rparr> else r) ls)
   = map_option (\<lambda>l. l\<lparr>l_total_score := t\<rparr>) (find (\<lambda>l. l_user_id l = uid) ls)"
  by (induction ls) simp_all

lemma find_append_cases:
  "find P (xs @ ys) = (case find P xs of None \<Rightarrow> find P ys | Some x \<Rightarrow> Some x)"
  by (induction xs) auto

lemma leaderboards_upsert_find:
  "leaderboards_upsert uid t ls = (entry, ls') \<Longrightarrow>
     find (\<lambda>l. l_user_id l = uid) ls' = Some entry \<and> l_total_score entry = t \<and> l_user_id entry = uid"
  by (auto simp: leaderboards_upsert_def find_leaderboards_set_total find_append_cases Let_def
           split: option.splits dest: find_Some_iff[THEN iffD1])

lemma submit_transaction_total:
  assumes "submit_transaction e d uid sc gm = Inr (r, d')"
  shows "aggregate_of uid d' = Some (leaderboardEntry r)
         \<and> l_total_score (leaderboardEntry r) = session_total uid d'
         \<and> game_sessions d' = game_sessions d @ [\<lparr>gs_user_id = uid, gs_score = sc, gs_game_mode = gm\<rparr>]"
  using assms
  by (auto simp: submit_transaction_def Let_def or_zero_sum_score aggregate_of_def session_total_def
           split: if_splits prod.splits dest!: leaderboards_upsert_find)

lemma submitScore_success_commits:
  assumes "submitScore e s uid sc gameMode = (Inr v, s')"
  shows "\<exists>r. submit_transaction e (store s) uid sc
                (case gameMode of None \<Rightarrow> ''solo'' | Some m \<Rightarrow> m) = Inr (r, store s')"
  using assms
  by (auto simp: submitScore_def Let_def split: sum.splits prod.splits if_splits)

lemmas submit_defs =
  submitScore_def submit_transaction_def user_upsert_def sum_score_def or_zero_def
  fits_integer_def fits_game_sessions_def INT_MIN_def INT_MAX_def leaderboards_upsert_def
  invalidateUserCache_def
  invalidateLeaderboardCache_def addRankRecalculationJob_def get_property_def Let_def
  env_ok_def env_queue_down_def seeded_def tied_def empty_cache_def

text \<open>
  Claim C1. In every state of the system, when \<open>submitScore\<close> for a player returns
  successfully, the player has an aggregate row in the new store and its total score is the
  sum of the scores of all game sessions of that player in the new store, the session just
  inserted included: the sum is the old sum of the sessions plus the submitted score,
  whatever the aggregate row held before. The state before is arbitrary, so this holds
  after each submission of any sequence run one after another.
\<close>

theorem submitScore_total_is_sum:
  assumes "submitScore e s uid sc gameMode = (Inr v, s')"
  shows "\<exists>l. aggregate_of uid (store s') = Some l
           \<and> l_total_score l = session_total uid (store s')
           \<and> session_total uid (store s') = session_total uid (store s) + sc"
proof -
  from submitScore_success_commits[OF assms] obtain r where
    tx: "submit_transaction e (store s) uid sc
           (case gameMode of None \<Rightarrow> ''solo'' | Some m \<Rightarrow> m) = Inr (r, store s')"
    by blast
  from submit_transaction_total[OF tx] show ?thesis
    by (simp add: session_total_def)
qed

theorem submitScore_total_is_sum_witness:
  "fst (submitScore env_ok seeded 1 150 None) = Inr None
   \<and> map_option l_total_score (aggregate_of 1 (store (snd (submitScore env_ok seeded 1 150 None))))
       = Some 250
   \<and> session_total 1 (store (snd (submitScore env_ok seeded 1 150 None))) = 250"
proof -
  have res: "fst (submitScore env_ok seeded 1 150 None) = Inr None"
    by (simp add: submit_defs)
  then have run: "submitScore env_ok seeded 1 150 None
             = (Inr None, snd (submitScore env_ok seeded 1 150 None))"
    by (simp add: prod_eq_iff)
  have before: "session_total 1 (store seeded) = 100"
    by (simp add: session_total_def seeded_def)
  from submitScore_total_is_sum[OF run] before res show ?thesis
    by auto
qed

lemma submitScore_returns_undefined:
  "fst (submitScore e s uid sc gameMode) = Inr v \<Longrightarrow> v = None"
  by (auto simp: submitScore_def Let_def get_property_def split: sum.splits prod.splits if_splits)

text \<open>
  Claim C2. The claim says that a valid submission returns the player's id, the new total
  and a timestamp. The service returns the property \<open>leaderboardsEntry\<close> of an object
  whose property is named \<open>leaderboardEntry\<close>, which is \<open>undefined\<close>; the handler then
  reads \<open>userId\<close> off \<open>undefined\<close> and the request ends in a \<open>TypeError\<close>. Here for
  player 1 submitting 150 in mode \<open>solo\<close> on the seeded state, with nothing failing.
\<close>

theorem submit_handler_type_error:
  "fst (submitScore env_ok seeded 1 150 (Some ''solo'')) = Inr None
   \<and> fst (controller_submitScore env_ok ''2024-02-09T10:30:00.000Z'' seeded 1 150 (Some ''solo''))
       = Inl (TypeError ''Cannot read properties of undefined (reading 'userId')'')"
  by (simp add: controller_submitScore_def submit_defs)

text \<open>A rejected \<open>del\<close> changes neither what a submission returns nor the store.\<close>

lemma submitScore_ignores_del_failures:
  "fst (submitScore (e\<lparr>del_top_fails := a, del_rank_fails := b, del_score_fails := c\<rparr>) s uid sc gameMode)
     = fst (submitScore e s uid sc gameMode)
   \<and> store (snd (submitScore (e\<lparr>del_top_fails := a, del_rank_fails := b, del_score_fails := c\<rparr>) s uid sc gameMode))
     = store (snd (submitScore e s uid sc gameMode))"
  by (simp add: submitScore_def submit_transaction_def addRankRecalculationJob_def Let_def
           split: sum.splits prod.splits)

text \<open>
  Claim C3. The claim says that a failure of the enqueue after the commit does not fail
  the submission. With the queue rejecting the \<open>add\<close>, \<open>submitScore\<close> throws the 500
  error although the session and the new total of 250 are committed.
\<close>

theorem submitScore_fails_when_enqueue_fails:
  "fst (submitScore env_queue_down seeded 1 150 None)
     = Inl (AppError ''Failed to submit score. Please try again.'' 500)
   \<and> game_sessions (store (snd (submitScore env_queue_down seeded 1 150 None)))
     = game_sessions (store seeded) @ [\<lparr>gs_user_id = 1, gs_score = 150, gs_game_mode = ''solo''\<rparr>]
   \<and> aggregate_of 1 (store (snd (submitScore env_queue_down seeded 1 150 None)))
     = Some \<lparr>l_user_id = 1, l_total_score = 250, l_rank = None\<rparr>"
  by (simp add: submit_defs aggregate_of_def)

section \<open>Full recalculation gives competition ranks\<close>

lemma rank_walk_positions:
  assumes "sorted_wrt (\<lambda>x y. f y \<le> f x) (pre @ xs)"
    and "pos = Suc (length pre)"
    and "prev = (if pre = [] then None
                 else Some (f (last pre), Suc (length (filter (\<lambda>y. f (last pre) < f y) (pre @ xs)))))"
  shows "rank_walk f pos prev xs
         = map (\<lambda>x. (x, Suc (length (filter (\<lambda>y. f x < f y) (pre @ xs))))) xs"
  using assms
proof (induction xs arbitrary: pre pos prev)
  case Nil
  then show ?case by simp
next
  case (Cons x xs)
  let ?all = "pre @ x # xs"
  let ?cnt = "\<lambda>t. length (filter (\<lambda>y. t < f y) ?all)"
  define r where "r = (case prev of None \<Rightarrow> pos | Some (s, r') \<Rightarrow> if s = f x then r' else pos)"
  have srt: "sorted_wrt (\<lambda>x y. f y \<le> f x) ?all" using Cons.prems(1) by simp
  have after: "\<forall>y \<in> set (x # xs). f y \<le> f x"
    using srt by (auto simp: sorted_wrt_append)
  have before: "\<forall>y \<in> set pre. f x \<le> f y"
    using srt by (auto simp: sorted_wrt_append)
  have r_eq: "r = Suc (?cnt (f x))"
  proof (cases "pre = []")
    case True
    have "filter (\<lambda>y. f x < f y) (x # xs) = []"
      using after by (auto simp: filter_empty_conv)
    with True Cons.prems show ?thesis by (simp add: r_def)
  next
    case False
    show ?thesis
    proof (cases "f (last pre) = f x")
      case True
      with False Cons.prems show ?thesis by (simp add: r_def)
    next
      case neq: False
      have lastin: "last pre \<in> set pre" using False by simp
      have lt: "f x < f (last pre)" using before lastin neq by fastforce
      have "\<forall>y \<in> set pre. f (last pre) \<le> f y"
      proof -
        have "sorted_wrt (\<lambda>x y. f y \<le> f x) pre" using srt by (simp add: sorted_wrt_append)
        then have "sorted_wrt (\<lambda>x y. f y \<le> f x) (butlast pre @ [last pre])"
          using False by simp
        then have "\<forall>y \<in> set (butlast pre). f (last pre) \<le> f y"
          by (simp add: sorted_wrt_append)
        moreover have "set pre = set (butlast pre) \<union> {last pre}"
          using False by (metis append_butlast_last_id set_append list.set(1) list.set(2))
        ultimately show ?thesis by auto
      qed
      with lt have allpre: "\<forall>y \<in> set pre. f x < f y" by fastforce
      have "filter (\<lambda>y. f x < f y) pre = pre" using allpre by (simp add: filter_id_conv)
      moreover have "filter (\<lambda>y. f x < f y) (x # xs) = []"
        using after by (auto simp: filter_empty_conv)
      ultimately have "?cnt (f x) = length pre" by simp
      with False neq Cons.prems show ?thesis by (simp add: r_def)
    qed
  qed
  have step: "rank_walk f (Suc pos) (Some (f x, r)) xs
        = map (\<lambda>z. (z, Suc (length (filter (\<lambda>y. f z < f y) ((pre @ [x]) @ xs))))) xs"
  proof (rule Cons.IH)
    show "sorted_wrt (\<lambda>x y. f y \<le> f x) ((pre @ [x]) @ xs)" using srt by simp
    show "Suc pos = Suc (length (pre @ [x]))" using Cons.prems(2) by simp
    show "Some (f x, r) = (if pre @ [x] = [] then None
             else Some (f (last (pre @ [x])),
                        Suc (length (filter (\<lambda>y. f (last (pre @ [x])) < f y) ((pre @ [x]) @ xs)))))"
      using r_eq by simp
  qed
  have "rank_walk f pos prev (x # xs) = (x, r) # rank_walk f (Suc pos) (Some (f x, r)) xs"
    by (simp add: r_def Let_def)
  with step r_eq show ?case by simp
qed

lemma length_filter_order_by_desc:
  "length (filter P (order_by_desc f xs)) = length (filter P xs)"
proof -
  have "mset (filter P (order_by_desc f xs)) = mset (filter P xs)"
    by (simp add: order_by_desc_def)
  then show ?thesis by (metis size_mset)
qed

lemma sorted_order_by_desc:
  "sorted_wrt (\<lambda>x y. f y \<le> f x) (order_by_desc f xs)"
proof -
  have "sorted (map (\<lambda>x. - f x) (sort_key (\<lambda>x. - f x) xs))" by (rule sorted_sort_key)
  then show ?thesis by (simp add: order_by_desc_def sorted_map)
qed

lemma rank_over_competition:
  "rank_over f xs
   = map (\<lambda>x. (x, Suc (length (filter (\<lambda>y. f x < f y) xs)))) (order_by_desc f xs)"
proof -
  have "rank_walk f 1 None (order_by_desc f xs)
        = map (\<lambda>x. (x, Suc (length (filter (\<lambda>y. f x < f y) ([] @ order_by_desc f xs)))))
              (order_by_desc f xs)"
    by (rule rank_walk_positions) (simp_all add: sorted_order_by_desc)
  then show ?thesis by (simp add: rank_over_def length_filter_order_by_desc)
qed

lemma map_of_keyed:
  assumes "distinct (map k ys)" and "y \<in> set ys"
  shows "map_of (map (\<lambda>x. (k x, g x)) ys) (k y) = Some (g y)"
  using assms by (induction ys) (auto simp: rev_image_eqI)

lemma update_ranks_competition:
  assumes "distinct (map l_user_id ls)"
  shows "update_ranks ls
         = map (\<lambda>l. l\<lparr>l_rank := Some (count_greater (l_total_score l) ls + 1)\<rparr>) ls"
proof -
  let ?g = "\<lambda>l. Suc (length (filter (\<lambda>y. l_total_score l < l_total_score y) ls))"
  let ?sorted = "order_by_desc l_total_score ls"
  have ranked: "map (\<lambda>(l, r). (l_user_id l, r)) (rank_over l_total_score ls)
                = map (\<lambda>l. (l_user_id l, ?g l)) ?sorted"
    by (simp add: rank_over_competition)
  have dist: "distinct (map l_user_id ?sorted)"
  proof -
    have "mset (map l_user_id ?sorted) = mset (map l_user_id ls)"
      by (simp add: order_by_desc_def)
    then show ?thesis using assms by (metis mset_eq_imp_distinct_iff)
  qed
  have look: "map_of (map (\<lambda>l. (l_user_id l, ?g l)) ?sorted) (l_user_id l) = Some (?g l)"
    if "l \<in> set ls" for l
  proof -
    have "l \<in> set ?sorted" using that by (simp add: order_by_desc_def)
    then show ?thesis using dist by (rule map_of_keyed[rotated])
  qed
  show ?thesis
    unfolding update_ranks_def Let_def ranked
    by (rule map_cong) (simp_all add: look count_greater_def)
qed

lemma recalculateAllRanks_leaderboards:
  assumes "leaderboards_user_id_key (store s)" and "recalculateAllRanks e s = (Inr ok, s')"
  shows "leaderboards (store s')
         = map (\<lambda>l. l\<lparr>l_rank := Some (count_greater (l_total_score l) (leaderboards (store s)) + 1)\<rparr>)
               (leaderboards (store s))"
  using assms
  by (auto simp: recalculateAllRanks_def Let_def leaderboards_user_id_key_def
                 update_ranks_competition split: if_splits)

lemma count_greater_set_rank [simp]:
  "count_greater t (map (\<lambda>l. l\<lparr>l_rank := g l\<rparr>) ls) = count_greater t ls"
  by (simp add: count_greater_def filter_map o_def)

lemma count_equal_set_rank [simp]:
  "count_equal t (map (\<lambda>l. l\<lparr>l_rank := g l\<rparr>) ls) = count_equal t ls"
  by (simp add: count_equal_def filter_map o_def)


lemma count_greater_next_lower:
  assumes "tb < ta" and "\<forall>c \<in> set ls. \<not> (tb < l_total_score c \<and> l_total_score c < ta)"
  shows "count_greater tb ls = count_greater ta ls + count_equal ta ls"
  using assms by (induction ls) (auto simp: count_greater_def count_equal_def)

lemmas rank_defs =
  recalculateAllRanks_def update_ranks_def rank_over_def order_by_desc_def
  invalidateLeaderboardCache_def Let_def env_ok_def tied_def seeded_def empty_cache_def

text \<open>
  Claim C5, as the claim states it, fails: with two players tied at 200 and a third at
  100, the full recalculation gives the ranks 1, 1 and 3. The claim gives the third player
  rank 2.
\<close>

theorem recalculateAllRanks_not_dense:
  "leaderboards (store (snd (recalculateAllRanks env_ok tied)))
   = [\<lparr>l_user_id = 1, l_total_score = 200, l_rank = Some 1\<rparr>,
      \<lparr>l_user_id = 2, l_total_score = 200, l_rank = Some 1\<rparr>,
      \<lparr>l_user_id = 3, l_total_score = 100, l_rank = Some 3\<rparr>]"
  by (simp add: rank_defs)

text \<open>
  Claim C5, amended. After a full recalculation over a table with one row per user, the
  rank of every row is 1 plus the number of rows of strictly greater total score. So two
  rows of equal total score have equal rank, and a row of the next distinct lower total
  score has that rank plus the number of rows tied at it: there is a gap after a tie.
\<close>

theorem recalculateAllRanks_competition_ranking:
  assumes key: "leaderboards_user_id_key (store s)"
    and run: "recalculateAllRanks e s = (Inr ok, s')"
    and a: "a \<in> set (leaderboards (store s'))"
    and b: "b \<in> set (leaderboards (store s'))"
  shows "l_rank a = Some (count_greater (l_total_score a) (leaderboards (store s')) + 1)
       \<and> (l_total_score a = l_total_score b \<longrightarrow> l_rank a = l_rank b)
       \<and> (l_total_score b < l_total_score a
            \<and> (\<forall>c \<in> set (leaderboards (store s')).
                  \<not> (l_total_score b < l_total_score c \<and> l_total_score c < l_total_score a))
          \<longrightarrow> l_rank b = Some (count_greater (l_total_score a) (leaderboards (store s')) + 1
                               + count_equal (l_total_score a) (leaderboards (store s'))))"
proof -
  let ?ls = "leaderboards (store s)"
  let ?ls' = "leaderboards (store s')"
  have eq: "?ls' = map (\<lambda>l. l\<lparr>l_rank := Some (count_greater (l_total_score l) ?ls + 1)\<rparr>) ?ls"
    by (rule recalculateAllRanks_leaderboards[OF key run])
  have cg: "count_greater t ?ls' = count_greater t ?ls" for t
    unfolding eq by simp
  have rank_of: "l_rank x = Some (count_greater (l_total_score x) ?ls' + 1)"
    if "x \<in> set ?ls'" for x
    using that unfolding cg unfolding eq by auto
  have ra: "l_rank a = Some (count_greater (l_total_score a) ?ls' + 1)" by (rule rank_of[OF a])
  have rb: "l_rank b = Some (count_greater (l_total_score b) ?ls' + 1)" by (rule rank_of[OF b])
  have tie: "l_total_score a = l_total_score b \<longrightarrow> l_rank a = l_rank b"
    using ra rb by simp
  have nxt: "l_total_score b < l_total_score a
            \<and> (\<forall>c \<in> set ?ls'. \<not> (l_total_score b < l_total_score c \<and> l_total_score c < l_total_score a))
          \<longrightarrow> l_rank b = Some (count_greater (l_total_score a) ?ls' + 1 + count_equal (l_total_score a) ?ls')"
    using rb count_greater_next_lower[of "l_total_score b" "l_total_score a" ?ls'] by auto
  from ra tie nxt show ?thesis by blast
qed

theorem recalculateAllRanks_competition_ranking_witness:
  "leaderboards_user_id_key (store tied)
   \<and> fst (recalculateAllRanks env_ok tied) = Inr True
   \<and> leaderboards (store (snd (recalculateAllRanks env_ok tied)))
     = [\<lparr>l_user_id = 1, l_total_score = 200, l_rank = Some 1\<rparr>,
        \<lparr>l_user_id = 2, l_total_score = 200, l_rank = Some 1\<rparr>,
        \<lparr>l_user_id = 3, l_total_score = 100, l_rank = Some 3\<rparr>]
   \<and> count_greater 200 (leaderboards (store (snd (recalculateAllRanks env_ok tied)))) = 0
   \<and> count_equal 200 (leaderboards (store (snd (recalculateAllRanks env_ok tied)))) = 2"
proof -
  let ?a = "\<lparr>l_user_id = 1, l_total_score = 200, l_rank = Some 1\<rparr>"
  let ?b = "\<lparr>l_user_id = 3, l_total_score = 100, l_rank = Some (3::nat)\<rparr>"
  have key: "leaderboards_user_id_key (store tied)"
    by (simp add: leaderboards_user_id_key_def tied_def)
  have res: "fst (recalculateAllRanks env_ok tied) = Inr True"
    by (simp add: rank_defs)
  then have run: "recalculateAllRanks env_ok tied = (Inr True, snd (recalculateAllRanks env_ok tied))"
    by (simp add: prod_eq_iff)
  have rows: "leaderboards (store (snd (recalculateAllRanks env_ok tied)))
     = [?a, \<lparr>l_user_id = 2, l_total_score = 200, l_rank = Some 1\<rparr>, ?b]"
    by (simp add: rank_defs)
  have a: "?a \<in> set (leaderboards (store (snd (recalculateAllRanks env_ok tied))))"
    unfolding rows by simp
  have b: "?b \<in> set (leaderboards (store (snd (recalculateAllRanks env_ok tied))))"
    unfolding rows by simp
  from recalculateAllRanks_competition_ranking[OF key run a b] key res rows
  show ?thesis
    by (simp add: count_equal_def count_greater_def)
qed



lemma rankRecalculationWorker_incremental:
  "\<not> truthy_flag (jd_fullRecalculation job) \<Longrightarrow> rankRecalculationWorker e s job = (Inr True, s)"
  by (simp add: rankRecalculationWorker_def)

text \<open>
  Claim C6. The claim says that an incremental job sets the rank of its player to 1 plus
  the number of players of strictly greater total score. The worker leaves the whole
  state as it is: player 2 of the seeded state, who has no player above, keeps a null
  rank where the claim gives rank 1.
\<close>

theorem incremental_job_updates_nothing:
  "rankRecalculationWorker env_ok seeded
     \<lparr>jd_userId = Some 2, jd_fullRecalculation = None, jd_incremental = Some True\<rparr>
   = (Inr True, seeded)
   \<and> map_option l_rank (aggregate_of 2 (store seeded)) = Some None
   \<and> count_greater 200 (leaderboards (store seeded)) + 1 = 1"
  by (simp add: rankRecalculationWorker_def truthy_flag_def truthy_number_def aggregate_of_def count_greater_def seeded_def)

section \<open>Reading ranks through the cache\<close>

lemma getTopPlayers_hit:
  "\<not> redis_get_fails e \<Longrightarrow> TOP_LEADERBOARD (redis s) = Some cached
     \<Longrightarrow> getTopPlayers e s limit = (Inr cached, s)"
  by (simp add: getTopPlayers_def Let_def)

text \<open>
  Claim C7. The claim says that \<open>getTopPlayers\<close> returns the top \<open>n\<close> players whatever
  was served before. The cache has one key for every limit: after a call with limit 1,
  a call with limit 2 is served the one cached player, where a store of two players has
  two to give.
\<close>

theorem getTopPlayers_serves_other_limit:
  "fst (getTopPlayers env_ok seeded (Some 2))
     = Inr [\<lparr>userId = 2, username = ''user_2'', totalScore = 200, rank = 1\<rparr>,
            \<lparr>userId = 1, username = ''user_1'', totalScore = 100, rank = 2\<rparr>]
   \<and> fst (getTopPlayers env_ok (snd (getTopPlayers env_ok seeded (Some 1))) (Some 2))
     = Inr [\<lparr>userId = 2, username = ''user_2'', totalScore = 200, rank = 1\<rparr>]"
  by (simp add: getTopPlayers_def top_players_query_def leaderboards_join_users_def rank_over_def order_by_desc_def submit_defs)

lemma find_by_filter:
  "find P xs = (case filter P xs of [] \<Rightarrow> None | x # ys \<Rightarrow> Some x)"
  by (induction xs) auto

lemma join_rows_of_user:
  "take 1 (filter (\<lambda>(l, u). l_user_id l = uid)
             (concat (map (\<lambda>l. map (\<lambda>u. (l, u)) (filter (\<lambda>u. l_user_id l = u_id u) us)) ls)))
   = (case find (\<lambda>l. l_user_id l = uid) ls of
        None \<Rightarrow> []
      | Some l \<Rightarrow> (case find (\<lambda>u. u_id u = uid) us of None \<Rightarrow> [] | Some u \<Rightarrow> [(l, u)]))"
proof (induction ls)
  case Nil
  then show ?case by simp
next
  case (Cons l ls)
  show ?case
  proof (cases "l_user_id l = uid")
    case True
    have seg: "filter (\<lambda>(l, u). l_user_id l = uid)
                 (map (\<lambda>u. (l, u)) (filter (\<lambda>u. l_user_id l = u_id u) us))
               = map (\<lambda>u. (l, u)) (filter (\<lambda>u. u_id u = uid) us)"
      using True by (induction us) auto
    show ?thesis
    proof (cases "filter (\<lambda>u. u_id u = uid) us")
      case Nil
      then have "find (\<lambda>u. u_id u = uid) us = None" by (simp add: find_by_filter)
      with Nil True seg Cons.IH show ?thesis by (simp split: option.splits)
    next
      case (Cons u rest)
      then have "find (\<lambda>u. u_id u = uid) us = Some u" by (simp add: find_by_filter)
      with Cons True seg show ?thesis by simp
    qed
  next
    case False
    have "filter (\<lambda>(l, u). l_user_id l = uid)
                 (map (\<lambda>u. (l, u)) (filter (\<lambda>u. l_user_id l = u_id u) us)) = []"
      using False by (induction us) auto
    with False Cons.IH show ?thesis by simp
  qed
qed

lemma fkey_user_of:
  assumes "leaderboards_user_id_fkey d" and "aggregate_of uid d = Some l"
  shows "\<exists>u. user_of uid d = Some u"
proof -
  from assms(2) have "l \<in> set (leaderboards d)" and "l_user_id l = uid"
    by (auto simp: aggregate_of_def find_Some_iff)
  with assms(1) obtain u where "u \<in> set (users d)" and "u_id u = uid"
    by (auto simp: leaderboards_user_id_fkey_def list_all_iff list_ex_iff)
  then have "find (\<lambda>u. u_id u = uid) (users d) \<noteq> None"
    by (auto simp: find_None_iff)
  then show ?thesis by (auto simp: user_of_def)
qed

lemma aggregate_of_user_id:
  "aggregate_of uid d = Some l \<Longrightarrow> l_user_id l = uid"
  by (auto simp: aggregate_of_def find_Some_iff)

lemma player_rank_query_rows:
  assumes "\<not> db_fails e" and "fits_integer uid"
  shows "player_rank_query e d uid =
         Inr (case aggregate_of uid d of
                None \<Rightarrow> []
              | Some l \<Rightarrow>
                  (case user_of uid d of
                     None \<Rightarrow> []
                   | Some u \<Rightarrow>
                       [\<lparr>userId = l_user_id l, username = u_username u,
                         totalScore = l_total_score l,
                         rank = count_greater (l_total_score l) (leaderboards d) + 1,
                         totalPlayers = length (leaderboards d)\<rparr>]))"
proof -
  have rows: "take 1 (filter (\<lambda>(l, u). l_user_id l = uid) (leaderboards_join_users d))
        = (case aggregate_of uid d of
             None \<Rightarrow> []
           | Some l \<Rightarrow> (case user_of uid d of None \<Rightarrow> [] | Some u \<Rightarrow> [(l, u)]))"
    unfolding leaderboards_join_users_def aggregate_of_def user_of_def
    by (rule join_rows_of_user)
  show ?thesis
    unfolding player_rank_query_def rows using assms
    by (simp split: option.splits)
qed

lemma not_found_neq_failed [simp]:
  "AppError ''Failed to retrieve player rank'' 500 \<noteq> not_found"
  by (simp add: not_found_def)

lemma getPlayerRank_not_found_miss:
  assumes "fst (getPlayerRank e s uid) = Inl not_found"
  shows "USER_RANK (redis s) uid = None \<and> \<not> db_fails e \<and> \<not> redis_get_fails e
         \<and> fits_integer uid
         \<and> (aggregate_of uid (store s) = None \<or> user_of uid (store s) = None)"
proof -
  from assms have a: "\<not> redis_get_fails e" and b: "USER_RANK (redis s) uid = None"
    by (auto simp: getPlayerRank_def Let_def split: if_splits option.splits)
  from assms a b have c: "\<not> db_fails e" and d: "fits_integer uid"
    by (auto simp: getPlayerRank_def Let_def player_rank_query_def split: if_splits)
  from assms a b c d show ?thesis
    by (auto simp: getPlayerRank_def Let_def player_rank_query_rows
             split: if_splits option.splits)
qed

lemma cache_soundD:
  "cache_sound s \<Longrightarrow> USER_RANK (redis s) uid = Some r \<Longrightarrow> cached_rank_ok (store s) uid r"
  unfolding cache_sound_def by blast

lemma cached_rank_ok_grows:
  assumes "cached_rank_ok d uid r"
    and "l_user_id ` set (leaderboards d) \<subseteq> l_user_id ` set (leaderboards d')"
    and "length (leaderboards d) \<le> length (leaderboards d')"
  shows "cached_rank_ok d' uid r"
proof -
  from assms(1) have "aggregate_of uid d \<noteq> None"
    by (simp add: cached_rank_ok_def)
  then obtain x where "x \<in> set (leaderboards d)" and "l_user_id x = uid"
    by (auto simp: aggregate_of_def find_None_iff)
  then have "uid \<in> l_user_id ` set (leaderboards d)"
    by (metis image_eqI)
  with assms(2) have "uid \<in> l_user_id ` set (leaderboards d')" by blast
  then have "aggregate_of uid d' \<noteq> None"
    by (auto simp: aggregate_of_def find_None_iff)
  with assms(1,3) show ?thesis by (simp add: cached_rank_ok_def)
qed

lemma count_greater_below_length:
  assumes "l \<in> set ls"
  shows "count_greater (l_total_score l) ls < length ls"
  unfolding count_greater_def using assms by (rule length_filter_less) simp

lemma getPlayerRank_error_keeps_state:
  "fst (getPlayerRank e s uid) = Inl err \<Longrightarrow> snd (getPlayerRank e s uid) = s"
  by (auto simp: getPlayerRank_def Let_def split: if_splits option.splits sum.splits list.splits)

lemma aggregate_of_iff:
  "aggregate_of uid d \<noteq> None \<longleftrightarrow> uid \<in> l_user_id ` set (leaderboards d)"
  by (auto simp: aggregate_of_def find_None_iff)

lemma fkey_iff:
  "leaderboards_user_id_fkey d \<longleftrightarrow> l_user_id ` set (leaderboards d) \<subseteq> u_id ` set (users d)"
  unfolding leaderboards_user_id_fkey_def list_all_iff list_ex_iff image_subset_iff image_iff
  by (metis (full_types))

lemma user_upsert_ids:
  "u_id ` set (user_upsert uid us) = insert uid (u_id ` set us)"
  by (auto simp: user_upsert_def find_None_iff find_Some_iff split: option.splits)

lemma leaderboards_upsert_ids:
  "map l_user_id (snd (leaderboards_upsert uid t ls))
   = (if uid \<in> l_user_id ` set ls then map l_user_id ls else map l_user_id ls @ [uid])"
proof -
  have same: "map l_user_id (map (\<lambda>r. if l_user_id r = uid then r\<lparr>l_total_score := t\<rparr> else r) ls)
              = map l_user_id ls"
    by (induction ls) auto
  show ?thesis
  proof (cases "find (\<lambda>l. l_user_id l = uid) ls")
    case None
    then have "uid \<notin> l_user_id ` set ls" by (auto simp: find_None_iff)
    with None show ?thesis by (simp add: leaderboards_upsert_def Let_def)
  next
    case (Some l)
    then have "uid \<in> l_user_id ` set ls" by (auto simp: find_Some_iff)
    with Some same show ?thesis by (simp add: leaderboards_upsert_def)
  qed
qed

lemma submit_transaction_tables:
  assumes "submit_transaction e d uid sc gm = Inr (r, d')"
  shows "users d' = user_upsert uid (users d)
       \<and> leaderboards d' = snd (leaderboards_upsert uid (tx_totalScore r) (leaderboards d))"
  using assms
  by (auto simp: submit_transaction_def Let_def split: if_splits prod.splits)

lemma submit_transaction_fkey:
  assumes "leaderboards_user_id_fkey d" and "submit_transaction e d uid sc gm = Inr (r, d')"
  shows "leaderboards_user_id_fkey d'"
proof -
  have "set (map l_user_id (leaderboards d')) \<subseteq> insert uid (l_user_id ` set (leaderboards d))"
    unfolding submit_transaction_tables[OF assms(2), THEN conjunct2] leaderboards_upsert_ids
    by auto
  moreover have "u_id ` set (users d') = insert uid (u_id ` set (users d))"
    unfolding submit_transaction_tables[OF assms(2), THEN conjunct1] by (rule user_upsert_ids)
  ultimately show ?thesis using assms(1) unfolding fkey_iff by auto
qed

lemma submit_transaction_key:
  assumes "leaderboards_user_id_key d" and "submit_transaction e d uid sc gm = Inr (r, d')"
  shows "leaderboards_user_id_key d'"
  using assms(1)
  unfolding leaderboards_user_id_key_def
    submit_transaction_tables[OF assms(2), THEN conjunct2] leaderboards_upsert_ids
  by auto

lemma submit_transaction_keeps_rows:
  assumes "submit_transaction e d uid sc gm = Inr (r, d')"
    and "aggregate_of uid' d \<noteq> None"
  shows "aggregate_of uid' d' \<noteq> None"
proof -
  have "set (map l_user_id (leaderboards d)) \<subseteq> set (map l_user_id (leaderboards d'))"
    unfolding submit_transaction_tables[OF assms(1), THEN conjunct2] leaderboards_upsert_ids
    by auto
  with assms(2) show ?thesis unfolding aggregate_of_iff by auto
qed

lemma invalidate_user_rank:
  "USER_RANK (invalidateUserCache e uid (invalidateLeaderboardCache e c)) uid' = None
   \<or> USER_RANK (invalidateUserCache e uid (invalidateLeaderboardCache e c)) uid' = USER_RANK c uid'"
  by (simp add: invalidateUserCache_def invalidateLeaderboardCache_def Let_def)

lemma submitScore_effect:
  "(store (snd (submitScore e s uid sc gameMode)) = store s
    \<or> (\<exists>r. submit_transaction e (store s) uid sc
              (case gameMode of None \<Rightarrow> ''solo'' | Some m \<Rightarrow> m)
            = Inr (r, store (snd (submitScore e s uid sc gameMode)))))
   \<and> (USER_RANK (redis (snd (submitScore e s uid sc gameMode))) uid' = None
      \<or> USER_RANK (redis (snd (submitScore e s uid sc gameMode))) uid'
        = USER_RANK (redis s) uid')"
proof (cases "submit_transaction e (store s) uid sc (case gameMode of None \<Rightarrow> ''solo'' | Some m \<Rightarrow> m)")
  case (Inl err)
  then show ?thesis by (simp add: submitScore_def Let_def)
next
  case (Inr p)
  obtain r d where p: "p = (r, d)" by (cases p)
  have st: "store (snd (submitScore e s uid sc gameMode)) = d"
    using Inr p by (simp add: submitScore_def Let_def split: sum.splits)
  have rd: "redis (snd (submitScore e s uid sc gameMode))
            = invalidateUserCache e uid (invalidateLeaderboardCache e (redis s))"
    using Inr p by (simp add: submitScore_def Let_def split: sum.splits)
  show ?thesis
    unfolding st rd using Inr p invalidate_user_rank[of e uid "redis s" uid'] by simp
qed

lemma submit_transaction_grows:
  assumes "submit_transaction e d uid sc gm = Inr (r, d')"
  shows "l_user_id ` set (leaderboards d) \<subseteq> l_user_id ` set (leaderboards d')
       \<and> length (leaderboards d) \<le> length (leaderboards d')"
proof -
  have ids: "map l_user_id (leaderboards d')
        = (if uid \<in> l_user_id ` set (leaderboards d) then map l_user_id (leaderboards d)
           else map l_user_id (leaderboards d) @ [uid])"
    unfolding submit_transaction_tables[OF assms, THEN conjunct2] by (rule leaderboards_upsert_ids)
  have "set (map l_user_id (leaderboards d)) \<subseteq> set (map l_user_id (leaderboards d'))"
    unfolding ids by auto
  moreover have "length (map l_user_id (leaderboards d)) \<le> length (map l_user_id (leaderboards d'))"
    unfolding ids by simp
  ultimately show ?thesis by simp
qed

lemma submitScore_cache_sound:
  assumes "cache_sound s"
  shows "cache_sound (snd (submitScore e s uid sc gameMode))"
  unfolding cache_sound_def
proof (intro allI impI)
  fix uid' r
  let ?s' = "snd (submitScore e s uid sc gameMode)"
  assume c: "USER_RANK (redis ?s') uid' = Some r"
  with submitScore_effect[of e s uid sc gameMode uid']
  have old: "USER_RANK (redis s) uid' = Some r" by auto
  from cache_soundD[OF assms old] have ok: "cached_rank_ok (store s) uid' r" .
  from submitScore_effect[of e s uid sc gameMode uid']
  have "store ?s' = store s
        \<or> (l_user_id ` set (leaderboards (store s)) \<subseteq> l_user_id ` set (leaderboards (store ?s'))
           \<and> length (leaderboards (store s)) \<le> length (leaderboards (store ?s')))"
    by (auto dest: submit_transaction_grows)
  then show "cached_rank_ok (store ?s') uid' r"
  proof
    assume "store ?s' = store s"
    with ok show ?thesis by simp
  next
    assume "l_user_id ` set (leaderboards (store s)) \<subseteq> l_user_id ` set (leaderboards (store ?s'))
           \<and> length (leaderboards (store s)) \<le> length (leaderboards (store ?s'))"
    then show ?thesis using cached_rank_ok_grows[OF ok] by blast
  qed
qed

lemma getPlayerRank_miss:
  assumes "no_failure e" and "fits_integer uid" and "USER_RANK (redis s) uid = None"
    and "aggregate_of uid (store s) = Some l" and "user_of uid (store s) = Some u"
  shows "getPlayerRank e s uid =
           (let result = \<lparr>userId = uid, username = u_username u,
                          totalScore = l_total_score l,
                          rank = count_greater (l_total_score l) (leaderboards (store s)) + 1,
                          totalPlayers = length (leaderboards (store s))\<rparr>
            in (Inr result,
                s\<lparr>redis := (redis s)\<lparr>USER_RANK := (USER_RANK (redis s))(uid \<mapsto> result)\<rparr>\<rparr>))"
proof -
  from assms(1) have nodb: "\<not> db_fails e" by (simp add: no_failure_def)
  from assms player_rank_query_rows[OF nodb assms(2), of "store s"]
    aggregate_of_user_id[OF assms(4)]
  show ?thesis by (simp add: getPlayerRank_def Let_def no_failure_def)
qed

lemma getPlayerRank_effect:
  "snd (getPlayerRank e s uid) = s
   \<or> (\<exists>l u. aggregate_of uid (store s) = Some l \<and> user_of uid (store s) = Some u
        \<and> snd (getPlayerRank e s uid)
          = s\<lparr>redis := (redis s)\<lparr>USER_RANK := (USER_RANK (redis s))
               (uid \<mapsto> \<lparr>userId = uid, username = u_username u,
                         totalScore = l_total_score l,
                         rank = count_greater (l_total_score l) (leaderboards (store s)) + 1,
                         totalPlayers = length (leaderboards (store s))\<rparr>)\<rparr>\<rparr>)"
proof (cases "db_fails e \<or> \<not> fits_integer uid")
  case True
  then have "player_rank_query e (store s) uid = Inl StoreError"
    by (auto simp: player_rank_query_def)
  then show ?thesis
    by (simp add: getPlayerRank_def Let_def split: option.splits)
next
  case False
  then have nodb: "\<not> db_fails e" and rng: "fits_integer uid" by simp_all
  show ?thesis
  proof (cases "aggregate_of uid (store s)")
    case None
    then show ?thesis
      unfolding getPlayerRank_def Let_def player_rank_query_rows[OF nodb rng]
      by (simp split: option.splits)
  next
    case (Some l)
    note row = this
    show ?thesis
    proof (cases "user_of uid (store s)")
      case None
      with row show ?thesis
        unfolding getPlayerRank_def Let_def player_rank_query_rows[OF nodb rng]
        by (simp split: option.splits)
    next
      case (Some u)
      with row aggregate_of_user_id[OF row] show ?thesis
        unfolding getPlayerRank_def Let_def player_rank_query_rows[OF nodb rng]
        by (simp split: option.splits)
    qed
  qed
qed

lemma getPlayerRank_cache_sound:
  assumes "cache_sound s"
  shows "cache_sound (snd (getPlayerRank e s uid))"
  using getPlayerRank_effect[of e s uid]
proof (elim disjE exE conjE)
  assume "snd (getPlayerRank e s uid) = s"
  with assms show ?thesis by simp
next
  fix l u
  assume row: "aggregate_of uid (store s) = Some l"
    and snd_eq: "snd (getPlayerRank e s uid)
          = s\<lparr>redis := (redis s)\<lparr>USER_RANK := (USER_RANK (redis s))
               (uid \<mapsto> \<lparr>userId = uid, username = u_username u,
                         totalScore = l_total_score l,
                         rank = count_greater (l_total_score l) (leaderboards (store s)) + 1,
                         totalPlayers = length (leaderboards (store s))\<rparr>)\<rparr>\<rparr>"
  from row have "l \<in> set (leaderboards (store s))"
    by (auto simp: aggregate_of_def find_Some_iff)
  from count_greater_below_length[OF this]
  have below: "count_greater (l_total_score l) (leaderboards (store s)) < length (leaderboards (store s))" .
  have new: "cached_rank_ok (store s) uid
               \<lparr>userId = uid, username = u_username u, totalScore = l_total_score l,
                rank = count_greater (l_total_score l) (leaderboards (store s)) + 1,
                totalPlayers = length (leaderboards (store s))\<rparr>"
    using row below by (simp add: cached_rank_ok_def)
  show ?thesis
    unfolding snd_eq cache_sound_def
    using new cache_soundD[OF assms] by auto
qed

lemma update_ranks_user_ids:
  "map l_user_id (update_ranks ls) = map l_user_id ls"
  unfolding update_ranks_def Let_def by (induction ls) (auto split: option.splits)

lemma update_ranks_ids:
  "l_user_id ` set (update_ranks ls) = l_user_id ` set ls"
  using update_ranks_user_ids[of ls] by (metis set_map)

lemma recalculateAllRanks_cache_sound:
  assumes "cache_sound s"
  shows "cache_sound (snd (recalculateAllRanks e s))"
proof -
  let ?s' = "snd (recalculateAllRanks e s)"
  have rk: "USER_RANK (redis ?s') = USER_RANK (redis s)"
    by (simp add: recalculateAllRanks_def Let_def invalidateLeaderboardCache_def)
  have "map l_user_id (leaderboards (store ?s')) = map l_user_id (leaderboards (store s))"
    by (simp add: recalculateAllRanks_def Let_def update_ranks_user_ids)
  then have ids: "l_user_id ` set (leaderboards (store s)) \<subseteq> l_user_id ` set (leaderboards (store ?s'))"
    and len: "length (leaderboards (store s)) \<le> length (leaderboards (store ?s'))"
    by (metis set_map subset_refl, metis length_map order_refl)
  show ?thesis
    unfolding cache_sound_def rk
    using cache_soundD[OF assms] cached_rank_ok_grows[OF _ ids len] by blast
qed

text \<open>The service keeps the two constraints of the schema.\<close>

lemma recalculateAllRanks_constraints:
  "leaderboards_user_id_key (store (snd (recalculateAllRanks e s))) = leaderboards_user_id_key (store s)
   \<and> leaderboards_user_id_fkey (store (snd (recalculateAllRanks e s))) = leaderboards_user_id_fkey (store s)"
proof -
  have "map l_user_id (leaderboards (store (snd (recalculateAllRanks e s))))
        = map l_user_id (leaderboards (store s))"
    and "users (store (snd (recalculateAllRanks e s))) = users (store s)"
    by (simp_all add: recalculateAllRanks_def Let_def update_ranks_user_ids)
  then show ?thesis
    unfolding leaderboards_user_id_key_def fkey_iff by (metis set_map)
qed

lemma submitScore_constraints:
  assumes "leaderboards_user_id_key (store s)" and "leaderboards_user_id_fkey (store s)"
  shows "leaderboards_user_id_key (store (snd (submitScore e s uid sc gameMode)))
       \<and> leaderboards_user_id_fkey (store (snd (submitScore e s uid sc gameMode)))"
  using submitScore_effect[of e s uid sc gameMode uid] assms
  by (auto dest: submit_transaction_key submit_transaction_fkey)

text \<open>
  A submission, whatever it returns, keeps the totals of all players in step with their
  sessions: it writes the row of its player only.
\<close>

lemma leaderboards_upsert_rows:
  assumes "r \<in> set (snd (leaderboards_upsert uid t ls))"
  shows "(l_user_id r = uid \<and> l_total_score r = t) \<or> (l_user_id r \<noteq> uid \<and> r \<in> set ls)"
  using assms
  by (auto simp: leaderboards_upsert_def Let_def find_None_iff split: option.splits if_splits)

lemma submit_transaction_totals_consistent:
  assumes "totals_consistent d" and "submit_transaction e d uid sc gm = Inr (r, d')"
  shows "totals_consistent d'"
  unfolding totals_consistent_def list_all_iff
proof
  fix l assume l: "l \<in> set (leaderboards d')"
  have tabs: "leaderboards d' = snd (leaderboards_upsert uid (tx_totalScore r) (leaderboards d))"
    using submit_transaction_tables[OF assms(2)] by simp
  have tot: "tx_totalScore r = session_total uid d'"
    using assms(2)
    by (auto simp: submit_transaction_def Let_def or_zero_sum_score session_total_def
             split: if_splits prod.splits)
  have other: "session_total uid' d' = session_total uid' d" if "uid' \<noteq> uid" for uid'
    using submit_transaction_total[OF assms(2)] that by (simp add: session_total_def)
  from leaderboards_upsert_rows[OF l[unfolded tabs]]
  show "l_total_score l = session_total (l_user_id l) d'"
  proof
    assume "l_user_id l = uid \<and> l_total_score l = tx_totalScore r"
    with tot show ?thesis by simp
  next
    assume h: "l_user_id l \<noteq> uid \<and> l \<in> set (leaderboards d)"
    with assms(1) have "l_total_score l = session_total (l_user_id l) d"
      by (simp add: totals_consistent_def list_all_iff)
    with h other show ?thesis by simp
  qed
qed

lemma submitScore_totals_consistent:
  assumes "totals_consistent (store s)"
  shows "totals_consistent (store (snd (submitScore e s uid sc gameMode)))"
  using submitScore_effect[of e s uid sc gameMode uid] assms
  by (auto dest: submit_transaction_totals_consistent)

lemma getTopPlayers_cache_sound:
  assumes "cache_sound s"
  shows "cache_sound (snd (getTopPlayers e s limit))"
proof -
  have "USER_RANK (redis (snd (getTopPlayers e s limit))) = USER_RANK (redis s)
        \<and> store (snd (getTopPlayers e s limit)) = store s"
    by (simp add: getTopPlayers_def Let_def split: option.splits sum.splits)
  with assms show ?thesis by (simp add: cache_sound_def)
qed

lemma empty_cache_sound:
  "redis s = empty_cache \<Longrightarrow> cache_sound s"
  by (simp add: cache_sound_def empty_cache_def)

lemmas query_defs =
  getPlayerRank_def player_rank_query_def leaderboards_join_users_def count_greater_def
  not_found_def fits_integer_def INT_MIN_def INT_MAX_def

text \<open>
  Claim C8, as the claim states it, fails twice. With a rank cached, the rank returned is
  the cached one, not 1 plus the number of players of strictly greater total score: after
  player 1 has read rank 2 of 2 and player 3 has submitted 150, player 1 with total 100
  is below players 2 and 3, which makes rank 3 of 3, and is still given rank 2 of 2. And
  a player without an aggregate row does not always get the 404 error: for the user id
  2147483648, which has no row, the query is rejected and the call ends in the 500 error.
\<close>

theorem getPlayerRank_stale_or_out_of_range:
  "fst (getPlayerRank env_ok stale_rank_state 1)
     = Inr \<lparr>userId = 1, username = ''user_1'', totalScore = 100, rank = 2, totalPlayers = 2\<rparr>
   \<and> leaderboards (store stale_rank_state)
     = [\<lparr>l_user_id = 1, l_total_score = 100, l_rank = None\<rparr>,
        \<lparr>l_user_id = 2, l_total_score = 200, l_rank = None\<rparr>,
        \<lparr>l_user_id = 3, l_total_score = 150, l_rank = None\<rparr>]
   \<and> aggregate_of 2147483648 (store seeded) = None
   \<and> fst (getPlayerRank env_ok seeded 2147483648)
     = Inl (AppError ''Failed to retrieve player rank'' 500)"
  by (simp add: stale_rank_state_def query_defs submit_defs aggregate_of_def)

text \<open>
  Claim C8, amended. In a state that satisfies the foreign key of the leaderboards table
  and the invariant of the rank cache, \<open>getPlayerRank\<close> signals the 404 error only for a
  player without an aggregate row. For a user id in the range of the \<open>INTEGER\<close> column
  and when nothing fails, it signals the 404 error for every player without an aggregate
  row; for a player with an aggregate row and no cached rank it returns the user id, the
  user name, the total score, the rank 1 plus the number of rows of strictly greater total
  score and the number of rows, and caches this result; and for a player with a cached
  rank it returns the cached result and changes nothing, where the cached rank is at
  least 1 and at most the cached number of players, which is at most the number of rows.
  The rank is written out here as the count itself, not through the function of the query.
\<close>

theorem getPlayerRank_result:
  assumes fk: "leaderboards_user_id_fkey (store s)" and cs: "cache_sound s"
  shows "(fst (getPlayerRank e s uid) = Inl not_found \<longrightarrow> aggregate_of uid (store s) = None)
       \<and> (no_failure e \<and> fits_integer uid \<longrightarrow>
            (aggregate_of uid (store s) = None \<longrightarrow> fst (getPlayerRank e s uid) = Inl not_found)
          \<and> (\<forall>l. aggregate_of uid (store s) = Some l \<longrightarrow>
                (case USER_RANK (redis s) uid of
                   Some cached \<Rightarrow>
                     getPlayerRank e s uid = (Inr cached, s) \<and> userId cached = uid
                     \<and> 1 \<le> rank cached \<and> rank cached \<le> totalPlayers cached
                     \<and> totalPlayers cached \<le> length (leaderboards (store s))
                 | None \<Rightarrow>
                     (\<exists>u. user_of uid (store s) = Some u \<and>
                        fst (getPlayerRank e s uid) =
                          Inr \<lparr>userId = uid, username = u_username u,
                               totalScore = l_total_score l,
                               rank = Suc (length (filter (\<lambda>l2. l_total_score l < l_total_score l2)
                                                          (leaderboards (store s)))),
                               totalPlayers = length (leaderboards (store s))\<rparr> \<and>
                        USER_RANK (redis (snd (getPlayerRank e s uid))) uid =
                          Some \<lparr>userId = uid, username = u_username u,
                                totalScore = l_total_score l,
                                rank = Suc (length (filter (\<lambda>l2. l_total_score l < l_total_score l2)
                                                           (leaderboards (store s)))),
                                totalPlayers = length (leaderboards (store s))\<rparr>))))"
proof (intro conjI impI allI)
  assume nf: "fst (getPlayerRank e s uid) = Inl not_found"
  from getPlayerRank_not_found_miss[OF nf]
  have "aggregate_of uid (store s) = None \<or> user_of uid (store s) = None" by simp
  then show "aggregate_of uid (store s) = None"
  proof
    assume "user_of uid (store s) = None"
    then show ?thesis
      using fkey_user_of[OF fk, of uid] by (cases "aggregate_of uid (store s)") auto
  qed
next
  assume ok: "no_failure e \<and> fits_integer uid" and none: "aggregate_of uid (store s) = None"
  have miss: "USER_RANK (redis s) uid = None"
    using cache_soundD[OF cs, of uid] none
    by (cases "USER_RANK (redis s) uid") (auto simp: cached_rank_ok_def)
  from ok have nodb: "\<not> db_fails e" and rng: "fits_integer uid" by (simp_all add: no_failure_def)
  from player_rank_query_rows[OF nodb rng] ok none miss
  show "fst (getPlayerRank e s uid) = Inl not_found"
    by (simp add: getPlayerRank_def Let_def no_failure_def)
next
  fix l
  assume ok: "no_failure e \<and> fits_integer uid" and some: "aggregate_of uid (store s) = Some l"
  from ok have nofail: "no_failure e" and rng: "fits_integer uid" by simp_all
  from fkey_user_of[OF fk some] obtain u where u: "user_of uid (store s) = Some u" by blast
  show "case USER_RANK (redis s) uid of
          Some cached \<Rightarrow>
            getPlayerRank e s uid = (Inr cached, s) \<and> userId cached = uid
            \<and> 1 \<le> rank cached \<and> rank cached \<le> totalPlayers cached
            \<and> totalPlayers cached \<le> length (leaderboards (store s))
        | None \<Rightarrow>
            (\<exists>u. user_of uid (store s) = Some u \<and>
               fst (getPlayerRank e s uid) =
                 Inr \<lparr>userId = uid, username = u_username u,
                      totalScore = l_total_score l,
                      rank = Suc (length (filter (\<lambda>l2. l_total_score l < l_total_score l2)
                                                 (leaderboards (store s)))),
                      totalPlayers = length (leaderboards (store s))\<rparr> \<and>
               USER_RANK (redis (snd (getPlayerRank e s uid))) uid =
                 Some \<lparr>userId = uid, username = u_username u,
                       totalScore = l_total_score l,
                       rank = Suc (length (filter (\<lambda>l2. l_total_score l < l_total_score l2)
                                                  (leaderboards (store s)))),
                       totalPlayers = length (leaderboards (store s))\<rparr>)"
  proof (cases "USER_RANK (redis s) uid")
    case None
    from getPlayerRank_miss[OF nofail rng None some u] u
    show ?thesis
      unfolding None by (simp add: Let_def count_greater_def)
  next
    case (Some cached)
    from cache_soundD[OF cs Some] have "cached_rank_ok (store s) uid cached" .
    moreover from Some nofail have "getPlayerRank e s uid = (Inr cached, s)"
      by (simp add: getPlayerRank_def Let_def no_failure_def)
    ultimately show ?thesis
      unfolding Some by (simp add: cached_rank_ok_def)
  qed
qed

theorem getPlayerRank_result_witness:
  "leaderboards_user_id_fkey (store seeded) \<and> cache_sound seeded
   \<and> no_failure env_ok \<and> fits_integer 1 \<and> fits_integer 3
   \<and> aggregate_of 1 (store seeded) = Some \<lparr>l_user_id = 1, l_total_score = 100, l_rank = None\<rparr>
   \<and> fst (getPlayerRank env_ok seeded 1)
     = Inr \<lparr>userId = 1, username = ''user_1'', totalScore = 100, rank = 2, totalPlayers = 2\<rparr>
   \<and> aggregate_of 3 (store seeded) = None
   \<and> fst (getPlayerRank env_ok seeded 3) = Inl not_found
   \<and> leaderboards_user_id_fkey (store stale_rank_state) \<and> cache_sound stale_rank_state
   \<and> aggregate_of 1 (store stale_rank_state)
     = Some \<lparr>l_user_id = 1, l_total_score = 100, l_rank = None\<rparr>
   \<and> USER_RANK (redis stale_rank_state) 1
     = Some \<lparr>userId = 1, username = ''user_1'', totalScore = 100, rank = 2, totalPlayers = 2\<rparr>
   \<and> getPlayerRank env_ok stale_rank_state 1
     = (Inr \<lparr>userId = 1, username = ''user_1'', totalScore = 100, rank = 2, totalPlayers = 2\<rparr>,
        stale_rank_state)"
proof -
  have fk: "leaderboards_user_id_fkey (store seeded)"
    by (simp add: leaderboards_user_id_fkey_def seeded_def)
  have cs: "cache_sound seeded"
    by (rule empty_cache_sound) (simp add: seeded_def)
  have ok: "no_failure env_ok"
    by (simp add: no_failure_def env_ok_def)
  have rng: "fits_integer 1" "fits_integer 3"
    by (simp_all add: fits_integer_def INT_MIN_def INT_MAX_def)
  have one: "aggregate_of 1 (store seeded) = Some \<lparr>l_user_id = 1, l_total_score = 100, l_rank = None\<rparr>"
    by (simp add: aggregate_of_def seeded_def)
  have three: "aggregate_of 3 (store seeded) = None"
    by (simp add: aggregate_of_def seeded_def)
  have miss: "USER_RANK (redis seeded) 1 = None"
    by (simp add: seeded_def empty_cache_def)
  have u: "user_of 1 (store seeded) = Some \<lparr>u_id = 1, u_username = ''user_1''\<rparr>"
    by (simp add: user_of_def seeded_def)
  have cnt: "length (filter (\<lambda>l2. 100 < l_total_score l2) (leaderboards (store seeded))) = 1"
    "length (leaderboards (store seeded)) = 2"
    by (simp_all add: seeded_def)
  from getPlayerRank_result[OF fk cs, of env_ok 1] ok rng one miss u cnt
  have r1: "fst (getPlayerRank env_ok seeded 1)
     = Inr \<lparr>userId = 1, username = ''user_1'', totalScore = 100, rank = 2, totalPlayers = 2\<rparr>"
    by simp
  from getPlayerRank_result[OF fk cs, of env_ok 3] ok rng three
  have r3: "fst (getPlayerRank env_ok seeded 3) = Inl not_found"
    by simp
  have fk': "leaderboards_user_id_fkey (store stale_rank_state)"
    by (simp add: stale_rank_state_def leaderboards_user_id_fkey_def query_defs submit_defs)
  have cs': "cache_sound stale_rank_state"
    unfolding stale_rank_state_def
    by (intro submitScore_cache_sound getPlayerRank_cache_sound cs)
  have one': "aggregate_of 1 (store stale_rank_state)
     = Some \<lparr>l_user_id = 1, l_total_score = 100, l_rank = None\<rparr>"
    by (simp add: stale_rank_state_def aggregate_of_def query_defs submit_defs)
  have hit: "USER_RANK (redis stale_rank_state) 1
     = Some \<lparr>userId = 1, username = ''user_1'', totalScore = 100, rank = 2, totalPlayers = 2\<rparr>"
    by (simp add: stale_rank_state_def query_defs submit_defs)
  from getPlayerRank_result[OF fk' cs', of env_ok 1] ok rng one' hit
  have r1': "getPlayerRank env_ok stale_rank_state 1
     = (Inr \<lparr>userId = 1, username = ''user_1'', totalScore = 100, rank = 2, totalPlayers = 2\<rparr>,
        stale_rank_state)"
    by simp
  from fk cs ok rng one three r1 r3 fk' cs' one' hit r1' show ?thesis by simp
qed

text \<open>
  Claim C10. When \<open>getPlayerRank\<close> ends in an error, of any kind, the state and so the
  cache are what they were. After a 404 for a player, once a submission of that player
  has succeeded, a call in which nothing fails reads the store: it returns a result whose
  total score is the sum of the sessions of the player, and caches that result.
\<close>

theorem getPlayerRank_no_negative_caching:
  assumes fail: "getPlayerRank e s uid = (Inl err, s1)"
  shows "s1 = s
       \<and> (err = not_found \<and> leaderboards_user_id_fkey (store s)
            \<and> submitScore e2 s1 uid sc gameMode = (Inr v, s2) \<and> no_failure e3
          \<longrightarrow> (\<exists>r. fst (getPlayerRank e3 s2 uid) = Inr r
                 \<and> totalScore r = session_total uid (store s2)
                 \<and> USER_RANK (redis (snd (getPlayerRank e3 s2 uid))) uid = Some r))"
proof (intro conjI impI)
  from fail have f: "fst (getPlayerRank e s uid) = Inl err" by simp
  from getPlayerRank_error_keeps_state[OF f] fail show same: "s1 = s" by simp
  assume h: "err = not_found \<and> leaderboards_user_id_fkey (store s)
             \<and> submitScore e2 s1 uid sc gameMode = (Inr v, s2) \<and> no_failure e3"
  then have sub: "submitScore e2 s uid sc gameMode = (Inr v, s2)" using same by simp
  from h f have "fst (getPlayerRank e s uid) = Inl not_found" by simp
  from getPlayerRank_not_found_miss[OF this] have miss: "USER_RANK (redis s) uid = None"
    and rng: "fits_integer uid" by simp_all
  from submitScore_effect[of e2 s uid sc gameMode uid] sub miss
  have miss2: "USER_RANK (redis s2) uid = None" by auto
  from submitScore_success_commits[OF sub] obtain r where
    tx: "submit_transaction e2 (store s) uid sc
           (case gameMode of None \<Rightarrow> ''solo'' | Some m \<Rightarrow> m) = Inr (r, store s2)"
    by blast
  from submit_transaction_total[OF tx]
  have row: "aggregate_of uid (store s2) = Some (leaderboardEntry r)"
    and tot: "l_total_score (leaderboardEntry r) = session_total uid (store s2)" by simp_all
  from h have "leaderboards_user_id_fkey (store s)" by simp
  from submit_transaction_fkey[OF this tx] have fk2: "leaderboards_user_id_fkey (store s2)" .
  from fkey_user_of[OF fk2 row] obtain u where u: "user_of uid (store s2) = Some u" by blast
  from h have ok: "no_failure e3" by simp
  from getPlayerRank_miss[OF ok rng miss2 row u] tot
  show "\<exists>r. fst (getPlayerRank e3 s2 uid) = Inr r
           \<and> totalScore r = session_total uid (store s2)
           \<and> USER_RANK (redis (snd (getPlayerRank e3 s2 uid))) uid = Some r"
    by (simp add: Let_def)
qed

theorem getPlayerRank_no_negative_caching_witness:
  "getPlayerRank env_ok seeded 3 = (Inl not_found, seeded)
   \<and> leaderboards_user_id_fkey (store seeded)
   \<and> fst (submitScore env_ok seeded 3 40 None) = Inr None
   \<and> no_failure env_ok
   \<and> session_total 3 (store (snd (submitScore env_ok seeded 3 40 None))) = 40
   \<and> fst (getPlayerRank env_ok (snd (submitScore env_ok seeded 3 40 None)) 3)
     = Inr \<lparr>userId = 3, username = ''user_3'', totalScore = 40, rank = 3, totalPlayers = 3\<rparr>"
proof -
  let ?s2 = "snd (submitScore env_ok seeded 3 40 None)"
  have nf: "getPlayerRank env_ok seeded 3 = (Inl not_found, seeded)"
    by (simp add: query_defs seeded_def empty_cache_def env_ok_def)
  have fk: "leaderboards_user_id_fkey (store seeded)"
    by (simp add: leaderboards_user_id_fkey_def seeded_def)
  have res: "fst (submitScore env_ok seeded 3 40 None) = Inr None"
    by (simp add: submit_defs)
  then have sub: "submitScore env_ok seeded 3 40 None = (Inr None, ?s2)"
    by (simp add: prod_eq_iff)
  have ok: "no_failure env_ok"
    by (simp add: no_failure_def env_ok_def)
  have tot: "session_total 3 (store ?s2) = 40"
    by (simp add: session_total_def submit_defs)
  have name: "number_text 3 = ''3''"
    by code_simp
  have fresh: "fst (getPlayerRank env_ok ?s2 3)
     = Inr \<lparr>userId = 3, username = ''user_3'', totalScore = 40, rank = 3, totalPlayers = 3\<rparr>"
    by (simp add: query_defs submit_defs name)
  from getPlayerRank_no_negative_caching[OF nf, of env_ok 40 None None ?s2 env_ok]
    nf fk res sub ok tot fresh
  show ?thesis by simp
qed

end
